theory Spec2Isabelle
  imports Main "HOL-Library.Word" "HOL-Library.Monad_Syntax"
begin

unbundle bit_operations_syntax

section \<open>Platform\<close>

text \<open>
  \<^verbatim>\<open>base/numerics/basic_ops_impl.h\<close> is a header of templates over the integral type
  \<open>T\<close>. A \<open>T\<close> of \<open>sizeof(T)\<close> bytes is a word of \<open>8 * sizeof(T)\<close> bits; the templates
  are polymorphic in the word length, and \<^verbatim>\<open>if constexpr (sizeof(T) == ...)\<close> is a
  test on that length. \<open>int\<close> and \<open>unsigned int\<close> have four bytes, as on every platform
  the header is built for.

  What the preprocessor and the hardware decide is collected in a record: which branch
  of the \<^verbatim>\<open>#if\<close> chains is compiled, and in which order the bytes of an integer lie
  in memory.
\<close>

type_synonym u8 = "8 word"
type_synonym u16 = "16 word"
type_synonym u32 = "32 word"
type_synonym u64 = "64 word"
type_synonym uint = "32 word"

datatype byte_order = LittleEndian | BigEndian

record platform =
  gnuc9_or_clang :: bool  \<comment> \<open>\<^verbatim>\<open>(defined(__GNUC__) && __GNUC__ >= 9) || defined(__clang__)\<close>\<close>
  msc_ver :: bool         \<comment> \<open>\<^verbatim>\<open>_MSC_VER\<close> is defined and not zero\<close>
  host_order :: byte_order

datatype eval_context = ConstantEvaluation | RunTime

definition sizeof :: "'a::len itself \<Rightarrow> nat" where
  "sizeof t = LENGTH('a) div 8"

definition sizeof_int :: nat where
  "sizeof_int = 4"

section \<open>What the header takes from the compiler and the C library\<close>

text \<open>
  Modelled from the spec: \<^verbatim>\<open>__builtin_is_constant_evaluated\<close> is a compiler builtin,
  not code of the header. It is true exactly in a context that is evaluated as a
  compile-time constant.
\<close>

definition builtin_is_constant_evaluated :: "eval_context \<Rightarrow> bool" where
  "builtin_is_constant_evaluated ctx = (ctx = ConstantEvaluation)"

text \<open>
  Modelled from the spec: the storage of an unsigned integer of \<open>sizeof(T)\<close> bytes, as
  \<^verbatim>\<open>memcpy\<close> sees it. On a little-endian host the byte at the lowest address is the
  least significant one, on a big-endian host the most significant one.
  \<open>object_bytes\<close> is the storage of a value and \<open>object_value\<close> the value that a
  storage holds (\<open>word_rcat\<close> takes the most significant byte first).
\<close>

definition object_bytes :: "byte_order \<Rightarrow> 'a::len word \<Rightarrow> u8 list" where
  "object_bytes order x =
     (let lsb_first = map (\<lambda>k. ucast (drop_bit (8 * k) x)) [0..<sizeof TYPE('a)]
      in case order of LittleEndian \<Rightarrow> lsb_first | BigEndian \<Rightarrow> rev lsb_first)"

definition object_value :: "byte_order \<Rightarrow> u8 list \<Rightarrow> 'a::len word" where
  "object_value order bs =
     (case order of LittleEndian \<Rightarrow> word_rcat (rev bs) | BigEndian \<Rightarrow> word_rcat bs)"

text \<open>\<^verbatim>\<open>memcpy(dst, src, n)\<close>: the first \<open>n\<close> bytes of \<open>dst\<close> become those of \<open>src\<close>.\<close>

definition memcpy :: "u8 list \<Rightarrow> u8 list \<Rightarrow> nat \<Rightarrow> u8 list" where
  "memcpy dst src n = take n src @ drop n dst"

text \<open>
  Modelled from the spec: the byte-swap intrinsics of the compilers
  (\<^verbatim>\<open>__builtin_bswap16/32/64\<close>, \<^verbatim>\<open>_byteswap_ushort/ulong/uint64\<close>) are not code of
  the header. Each returns its argument with the order of the bytes reversed: the
  value whose bytes, most significant first, are the bytes of the argument, least
  significant first.
\<close>

definition byte_reverse :: "'a::len word \<Rightarrow> 'a word" where
  "byte_reverse x = object_value BigEndian (object_bytes LittleEndian x)"

definition builtin_bswap16 :: "u16 \<Rightarrow> u16" where
  "builtin_bswap16 x = byte_reverse x"

definition builtin_bswap32 :: "u32 \<Rightarrow> u32" where
  "builtin_bswap32 x = byte_reverse x"

definition builtin_bswap64 :: "u64 \<Rightarrow> u64" where
  "builtin_bswap64 x = byte_reverse x"

definition byteswap_ushort :: "u16 \<Rightarrow> u16" where
  "byteswap_ushort x = byte_reverse x"

definition byteswap_ulong :: "u32 \<Rightarrow> u32" where
  "byteswap_ulong x = byte_reverse x"

definition byteswap_uint64 :: "u64 \<Rightarrow> u64" where
  "byteswap_uint64 x = byte_reverse x"

section \<open>Operations with undefined behaviour\<close>

text \<open>
  A shift by at least the width of its (promoted) left operand is undefined in C++,
  and so is an index outside a fixed-size span or array. Each is a function to
  \<open>option\<close>, \<open>None\<close> being undefined behaviour, and the templates below run in the
  option monad: one undefined step makes the whole call \<open>None\<close>.
\<close>

definition shr :: "'a::len word \<Rightarrow> nat \<Rightarrow> 'a word option" where
  "shr x n = (if n < LENGTH('a) then Some (drop_bit n x) else None)"

definition shl :: "'a::len word \<Rightarrow> nat \<Rightarrow> 'a word option" where
  "shl x n = (if n < LENGTH('a) then Some (push_bit n x) else None)"

definition span_at :: "u8 list \<Rightarrow> nat \<Rightarrow> u8 option" where
  "span_at bytes i = (if i < length bytes then Some (bytes ! i) else None)"

definition array_set :: "u8 list \<Rightarrow> nat \<Rightarrow> u8 \<Rightarrow> u8 list option" where
  "array_set bytes i b = (if i < length bytes then Some (bytes[i := b]) else None)"

section \<open>The templates of the header\<close>

text \<open>\<^verbatim>\<open>cxx17_is_constant_evaluated\<close>: one body for each branch of the \<^verbatim>\<open>#if\<close> chain.\<close>

definition cxx17_is_constant_evaluated :: "platform \<Rightarrow> eval_context \<Rightarrow> bool" where
  "cxx17_is_constant_evaluated p ctx =
     (if gnuc9_or_clang p then builtin_is_constant_evaluated ctx
      else if msc_ver p then False
      else False)"

text \<open>
  \<^verbatim>\<open>SwapBytes\<close> for unsigned \<open>T\<close>. For \<open>sizeof(T) == 2\<close> the type \<^verbatim>\<open>MathType<T>\<close> is
  \<open>unsigned int\<close>, since \<open>sizeof(T) < sizeof(int)\<close>; for four and eight bytes the shifts
  are on \<open>T\<close> itself. The last branch of each chain holds
  \<^verbatim>\<open>static_assert(sizeof(T) == 8u)\<close>: there is no instance of the template for
  another size, and the model has no result there.
  Under \<^verbatim>\<open>_MSC_VER\<close>, \<open>unsigned short\<close> has two bytes and \<open>unsigned long\<close> four.
  Where the detector is false in a constant expression (MSVC without Clang), a
  compiler rejects the call of the intrinsic for more than one byte; the model gives
  the value that the intrinsic has at run time.
\<close>

definition SwapBytes :: "platform \<Rightarrow> eval_context \<Rightarrow> 'a::len word \<Rightarrow> 'a word option" where
  "SwapBytes p ctx value =
     (if cxx17_is_constant_evaluated p ctx then
        (if sizeof TYPE('a) = 1 then Some value
         else if sizeof TYPE('a) = 2 then do {
           a0 \<leftarrow> shr (ucast value :: uint) 0;
           let a = a0 AND 0xff;
           b0 \<leftarrow> shr (ucast value :: uint) 8;
           let b = b0 AND 0xff;
           hi \<leftarrow> shl a 8;
           lo \<leftarrow> shl b 0;
           Some (ucast (hi OR lo))
         }
         else if sizeof TYPE('a) = 4 then do {
           a0 \<leftarrow> shr value 0;
           let a = a0 AND 0xff;
           b0 \<leftarrow> shr value 8;
           let b = b0 AND 0xff;
           c0 \<leftarrow> shr value 16;
           let c = c0 AND 0xff;
           d0 \<leftarrow> shr value 24;
           let d = d0 AND 0xff;
           a1 \<leftarrow> shl a 24;
           b1 \<leftarrow> shl b 16;
           c1 \<leftarrow> shl c 8;
           d1 \<leftarrow> shl d 0;
           Some (a1 OR b1 OR c1 OR d1)
         }
         else if sizeof TYPE('a) = 8 then do {
           a0 \<leftarrow> shr value 0;
           let a = a0 AND 0xff;
           b0 \<leftarrow> shr value 8;
           let b = b0 AND 0xff;
           c0 \<leftarrow> shr value 16;
           let c = c0 AND 0xff;
           d0 \<leftarrow> shr value 24;
           let d = d0 AND 0xff;
           e0 \<leftarrow> shr value 32;
           let e = e0 AND 0xff;
           f0 \<leftarrow> shr value 40;
           let f = f0 AND 0xff;
           g0 \<leftarrow> shr value 48;
           let g = g0 AND 0xff;
           h0 \<leftarrow> shr value 56;
           let h = h0 AND 0xff;
           a1 \<leftarrow> shl a 56;
           b1 \<leftarrow> shl b 48;
           c1 \<leftarrow> shl c 40;
           d1 \<leftarrow> shl d 32;
           e1 \<leftarrow> shl e 24;
           f1 \<leftarrow> shl f 16;
           g1 \<leftarrow> shl g 8;
           h1 \<leftarrow> shl h 0;
           Some (a1 OR b1 OR c1 OR d1 OR e1 OR f1 OR g1 OR h1)
         }
         else None)
      else if msc_ver p then
        (if sizeof TYPE('a) = 1 then Some value
         else if sizeof TYPE('a) = 2 then Some (ucast (byteswap_ushort (ucast value)))
         else if sizeof TYPE('a) = 4 then Some (ucast (byteswap_ulong (ucast value)))
         else if sizeof TYPE('a) = 8 then Some (ucast (byteswap_uint64 (ucast value)))
         else None)
      else
        (if sizeof TYPE('a) = 1 then Some value
         else if sizeof TYPE('a) = 2 then Some (ucast (builtin_bswap16 (ucast value)))
         else if sizeof TYPE('a) = 4 then Some (ucast (builtin_bswap32 (ucast value)))
         else if sizeof TYPE('a) = 8 then Some (ucast (builtin_bswap64 (ucast value)))
         else None))"

text \<open>
  \<^verbatim>\<open>SwapBytes\<close> for signed \<open>T\<close>. A value of a signed type of \<open>LENGTH('a)\<close> bits is an
  integer; \<^verbatim>\<open>static_cast<std::make_unsigned_t<T>>\<close> takes it modulo \<open>2 ^ LENGTH('a)\<close>
  and \<^verbatim>\<open>static_cast<T>\<close> reads the word back in two's complement.
\<close>

definition SwapBytes_signed ::
    "platform \<Rightarrow> eval_context \<Rightarrow> 'a::len itself \<Rightarrow> int \<Rightarrow> int option" where
  "SwapBytes_signed p ctx t value =
     map_option sint (SwapBytes p ctx (word_of_int value :: 'a word))"

text \<open>
  \<^verbatim>\<open>FromLittleEndian\<close>. In \<^verbatim>\<open>val |= MathType<T>(bytes[i]) << (8u * i)\<close> the shift is on
  \<^verbatim>\<open>MathType<T>\<close>: on \<open>T\<close> when \<open>sizeof(T) >= sizeof(int)\<close>, on \<open>unsigned int\<close>
  otherwise, and then \<open>val\<close> is promoted for the \<open>|\<close> and the result converted back
  to \<open>T\<close>.
\<close>

function FromLittleEndian_loop :: "u8 list \<Rightarrow> nat \<Rightarrow> 'a::len word \<Rightarrow> 'a word option" where
  "FromLittleEndian_loop bytes i val =
     (if i < sizeof TYPE('a) then do {
        b \<leftarrow> span_at bytes i;
        val' \<leftarrow> (if sizeof TYPE('a) \<ge> sizeof_int
                 then do { s \<leftarrow> shl (ucast b :: 'a word) (8 * i); Some (val OR s) }
                 else do { s \<leftarrow> shl (ucast b :: uint) (8 * i);
                           Some (ucast ((ucast val :: uint) OR s)) });
        FromLittleEndian_loop bytes (i + 1) val'
      } else Some val)"
  by pat_completeness auto
termination
  by (relation "measure (\<lambda>(bytes, i, val :: 'a word). sizeof TYPE('a) - i)") auto

definition FromLittleEndian :: "platform \<Rightarrow> eval_context \<Rightarrow> u8 list \<Rightarrow> 'a::len word option" where
  "FromLittleEndian p ctx bytes =
     (if cxx17_is_constant_evaluated p ctx then FromLittleEndian_loop bytes 0 0
      else Some (object_value (host_order p)
             (memcpy (replicate (sizeof TYPE('a)) 0) bytes (sizeof TYPE('a)))))"

text \<open>
  \<^verbatim>\<open>ToLittleEndian\<close>. \<^verbatim>\<open>val >>= 8u\<close> is compiled only for \<open>sizeof(T) > 1\<close>; the shift
  is checked against the width of \<open>T\<close> itself, which is what the comment in the
  source reasons about and is never more than the width of the promoted operand.
\<close>

function ToLittleEndian_loop :: "u8 list \<Rightarrow> nat \<Rightarrow> 'a::len word \<Rightarrow> u8 list option" where
  "ToLittleEndian_loop bytes i val =
     (if i < sizeof TYPE('a) then do {
        let last_byte = (ucast (val AND 0xff) :: u8);
        bytes' \<leftarrow> array_set bytes i last_byte;
        val' \<leftarrow> (if sizeof TYPE('a) > 1 then shr val 8 else Some val);
        ToLittleEndian_loop bytes' (i + 1) val'
      } else Some bytes)"
  by pat_completeness auto
termination
  by (relation "measure (\<lambda>(bytes, i, val :: 'a word). sizeof TYPE('a) - i)") auto

definition ToLittleEndian :: "platform \<Rightarrow> eval_context \<Rightarrow> 'a::len word \<Rightarrow> u8 list option" where
  "ToLittleEndian p ctx val =
     (let bytes = replicate (sizeof TYPE('a)) 0
      in if cxx17_is_constant_evaluated p ctx then ToLittleEndian_loop bytes 0 val
         else Some (memcpy bytes (object_bytes (host_order p) val) (sizeof TYPE('a))))"

declare FromLittleEndian_loop.simps [simp del] ToLittleEndian_loop.simps [simp del]

section \<open>Bits of the memory model\<close>

text \<open>
  Bit \<open>n\<close> of a value is bit \<open>n mod 8\<close> of byte \<open>n div 8\<close> of its little-endian
  storage; the lemmas below read the storage, the reversal and the byte placed by
  a shift and a mask bit by bit.
\<close>

lemma bit_word_rcat_u8:
  "bit (word_rcat (ws :: u8 list) :: 'a::len word) n \<longleftrightarrow>
     n < LENGTH('a) \<and> n div 8 < length ws \<and> bit (rev ws ! (n div 8)) (n mod 8)"
  using bit_horner_sum_uint_exp_iff [of "rev ws" n]
  by (simp add: word_rcat_def bit_word_of_int_iff)

lemma nth_object_bytes_le:
  "k < sizeof TYPE('a) \<Longrightarrow>
   object_bytes LittleEndian (x :: 'a::len word) ! k = ucast (drop_bit (8 * k) x)"
  by (simp add: object_bytes_def)

lemma length_object_bytes [simp]:
  "length (object_bytes order (x :: 'a::len word)) = sizeof TYPE('a)"
  by (cases order) (simp_all add: object_bytes_def)

lemma bit_object_value_le:
  "bit (object_value LittleEndian bs :: 'a::len word) n \<longleftrightarrow>
     n < LENGTH('a) \<and> n div 8 < length bs \<and> bit (bs ! (n div 8)) (n mod 8)"
  by (simp add: object_value_def bit_word_rcat_u8)

lemma bit_object_value_be:
  "bit (object_value BigEndian bs :: 'a::len word) n \<longleftrightarrow>
     n < LENGTH('a) \<and> n div 8 < length bs \<and> bit (bs ! (length bs - 1 - n div 8)) (n mod 8)"
  by (auto simp add: object_value_def bit_word_rcat_u8 rev_nth)

lemma bit_byte_reverse:
  assumes "LENGTH('a::len) = 8 * sz"
  shows "bit (byte_reverse (x :: 'a word)) n \<longleftrightarrow>
           n < LENGTH('a) \<and> bit x (8 * (sz - 1 - n div 8) + n mod 8)"
proof -
  have sz: "sizeof TYPE('a) = sz" using assms by (simp add: sizeof_def)
  show ?thesis
  proof (cases "n < LENGTH('a)")
    case False then show ?thesis by (simp add: bit_object_value_be byte_reverse_def)
  next
    case True
    then have d: "n div 8 < sz" using assms by (simp add: less_mult_imp_div_less mult.commute)
    then have k: "sz - 1 - n div 8 < sz" by arith
    have m: "n mod 8 < 8" by simp
    show ?thesis using True d k
      by (simp add: byte_reverse_def bit_object_value_be sz nth_object_bytes_le
          bit_ucast_iff bit_drop_bit_eq)
  qed
qed

lemma bit_and_0xff: "bit (x AND (0xff :: 'a::len word)) n \<longleftrightarrow> n < 8 \<and> bit x n"
proof -
  have "(0xff :: 'a word) = mask 8" by (simp add: mask_eq_exp_minus_1)
  then have "bit (x AND (0xff :: 'a word)) n \<longleftrightarrow> bit (x AND mask 8) n" by (simp only:)
  also have "\<dots> \<longleftrightarrow> n < 8 \<and> bit x n"
    by (auto simp add: bit_and_iff bit_mask_iff dest: bit_imp_le_length)
  finally show ?thesis .
qed

lemma bit_place_byte:
  "bit (push_bit m (drop_bit k x AND (0xff :: 'a::len word))) n \<longleftrightarrow>
     m \<le> n \<and> n < m + 8 \<and> n < LENGTH('a) \<and> bit x (k + (n - m))"
  unfolding bit_push_bit_iff bit_and_0xff bit_drop_bit_eq
  by (auto simp add: possible_bit_def add.commute dest: bit_imp_le_length)

lemma byte_index:
  fixes n :: nat
  assumes "n < 8 * sz"
  obtains q r where "q < sz" "r < 8" "n = 8 * q + r"
proof -
  have "n div 8 < sz" "n mod 8 < 8" "n = 8 * (n div 8) + n mod 8"
    using assms by (simp_all add: less_mult_imp_div_less mult.commute)
  then show ?thesis using that by blast
qed

lemma bit_byte_reverse_at:
  assumes "LENGTH('a::len) = 8 * sz" "q < sz" "r < 8"
  shows "bit (byte_reverse (x :: 'a word)) (8 * q + r) \<longleftrightarrow> bit x (8 * (sz - 1 - q) + r)"
proof -
  have "8 * q + r < 8 * sz" using assms(2,3) by arith
  then show ?thesis using assms by (simp add: bit_byte_reverse [where sz = sz])
qed

lemmas intrinsic_defs = builtin_bswap16_def builtin_bswap32_def builtin_bswap64_def
  byteswap_ushort_def byteswap_ulong_def byteswap_uint64_def

section \<open>The loops of the codec\<close>

text \<open>
  Each loop is followed from an arbitrary index \<open>i\<close> and an arbitrary accumulator, by
  induction on the number of iterations that are left.
\<close>

lemma bit_push_byte:
  "bit (push_bit (8 * i) (ucast (b :: u8) :: 'c::len word)) n \<longleftrightarrow>
     n < LENGTH('c) \<and> n div 8 = i \<and> bit b (n mod 8)"
proof (cases "n div 8 = i")
  case True
  then have "8 * i \<le> n" "n - 8 * i = n mod 8"
    by (auto simp add: minus_mult_div_eq_mod [symmetric] mult.commute)
  then show ?thesis using True
    by (auto simp add: bit_push_bit_iff bit_ucast_iff possible_bit_def dest: bit_imp_le_length)
next
  case False
  have "\<not> (8 * i \<le> n \<and> bit b (n - 8 * i))"
  proof
    assume a: "8 * i \<le> n \<and> bit b (n - 8 * i)"
    then have "n - 8 * i < 8" using bit_imp_le_length [of b "n - 8 * i"] by simp
    with a have "n div 8 = i" by (auto simp add: div_nat_eqI mult.commute)
    with False show False by simp
  qed
  then show ?thesis using False
    by (auto simp add: bit_push_bit_iff bit_ucast_iff)
qed

lemma FromLittleEndian_loop_bits:
  assumes L: "LENGTH('a::len) = 8 * sizeof TYPE('a)" and len: "length bytes = sizeof TYPE('a)"
  shows "\<exists>r. FromLittleEndian_loop bytes i (val :: 'a word) = Some r \<and>
          (\<forall>n. bit r n \<longleftrightarrow>
             bit val n \<or> (n < LENGTH('a) \<and> i \<le> n div 8 \<and> bit (bytes ! (n div 8)) (n mod 8)))"
proof (induction "sizeof TYPE('a) - i" arbitrary: i val)
  case 0
  then have i: "\<not> i < sizeof TYPE('a)" by simp
  have "n < LENGTH('a) \<Longrightarrow> \<not> i \<le> n div 8" for n
    using i L by (simp add: less_mult_imp_div_less mult.commute)
  then show ?case using i by (subst FromLittleEndian_loop.simps) auto
next
  case (Suc k)
  then have i: "i < sizeof TYPE('a)" and k: "k = sizeof TYPE('a) - (i + 1)" by simp_all
  define val' :: "'a word" where
    "val' = (if sizeof TYPE('a) \<ge> sizeof_int then val OR push_bit (8 * i) (ucast (bytes ! i))
             else ucast ((ucast val :: uint) OR push_bit (8 * i) (ucast (bytes ! i))))"
  have sh: "8 * i < LENGTH('a)" using i L by simp
  have sh32: "\<not> sizeof TYPE('a) \<ge> sizeof_int \<Longrightarrow> 8 * i < 32 \<and> LENGTH('a) < 32"
    using i L by (simp add: sizeof_int_def)
  have step: "FromLittleEndian_loop bytes i val = FromLittleEndian_loop bytes (i + 1) val'"
    using i len sh sh32
    by (subst FromLittleEndian_loop.simps) (simp add: span_at_def shl_def val'_def)
  have bits': "bit val' n \<longleftrightarrow>
      bit val n \<or> (n < LENGTH('a) \<and> n div 8 = i \<and> bit (bytes ! i) (n mod 8))" for n
    using sh32
    by (auto simp add: val'_def bit_or_iff bit_push_byte bit_ucast_iff dest: bit_imp_le_length)
  from Suc.hyps(1) [OF k, of val'] obtain r where
    r: "FromLittleEndian_loop bytes (i + 1) val' = Some r"
       "\<And>n. bit r n \<longleftrightarrow> bit val' n \<or>
          (n < LENGTH('a) \<and> i + 1 \<le> n div 8 \<and> bit (bytes ! (n div 8)) (n mod 8))"
    by blast
  have "bit r n \<longleftrightarrow> bit val n \<or>
      (n < LENGTH('a) \<and> i \<le> n div 8 \<and> bit (bytes ! (n div 8)) (n mod 8))" for n
    unfolding r(2) bits' by (cases "n div 8 = i") auto
  with step r(1) show ?case by simp
qed

lemma FromLittleEndian_loop_value:
  assumes L: "LENGTH('a::len) = 8 * sizeof TYPE('a)" and len: "length bytes = sizeof TYPE('a)"
  shows "FromLittleEndian_loop bytes 0 (0 :: 'a word) = Some (object_value LittleEndian bytes)"
proof -
  from FromLittleEndian_loop_bits [OF L len, of 0 0] obtain r :: "'a word" where
    r: "FromLittleEndian_loop bytes 0 (0 :: 'a word) = Some r"
       "\<And>n. bit r n \<longleftrightarrow> n < LENGTH('a) \<and> bit (bytes ! (n div 8)) (n mod 8)"
    by auto
  have "r = object_value LittleEndian bytes"
  proof (rule bit_word_eqI)
    fix n assume n: "n < LENGTH('a)"
    then have "n div 8 < length bytes"
      using L len by (simp add: less_mult_imp_div_less mult.commute)
    then show "bit r n = bit (object_value LittleEndian bytes :: 'a word) n"
      using n by (simp add: r(2) bit_object_value_le)
  qed
  with r(1) show ?thesis by simp
qed

lemma ucast_and_0xff: "(ucast (x AND (0xff :: 'a::len word)) :: u8) = ucast x"
  by (rule bit_word_eqI) (simp add: bit_ucast_iff bit_and_0xff)

lemma ToLittleEndian_loop_bytes:
  assumes L: "LENGTH('a::len) = 8 * sizeof TYPE('a)" and len: "length bytes = sizeof TYPE('a)"
  shows "ToLittleEndian_loop bytes i (val :: 'a word) =
           Some (take i bytes @
                 map (\<lambda>k. ucast (drop_bit (8 * k) val)) [0..<sizeof TYPE('a) - i])"
  using len
proof (induction "sizeof TYPE('a) - i" arbitrary: i val bytes)
  case 0
  then show ?case by (subst ToLittleEndian_loop.simps) simp
next
  case (Suc k)
  then have i: "i < sizeof TYPE('a)" and k: "k = sizeof TYPE('a) - (i + 1)" by simp_all
  define val' where "val' = (if sizeof TYPE('a) > 1 then drop_bit 8 val else val)"
  define bytes' where "bytes' = bytes[i := ucast val]"
  have sh: "sizeof TYPE('a) > 1 \<Longrightarrow> 8 < LENGTH('a)" using L by simp
  have step: "ToLittleEndian_loop bytes i val = ToLittleEndian_loop bytes' (i + 1) val'"
    using i sh Suc.prems
    by (subst ToLittleEndian_loop.simps)
       (simp add: array_set_def shr_def val'_def bytes'_def ucast_and_0xff)
  have len': "length bytes' = sizeof TYPE('a)" using Suc.prems by (simp add: bytes'_def)
  have tk: "take (i + 1) bytes' = take i bytes @ [ucast val]"
    using i Suc.prems by (simp add: bytes'_def take_Suc_conv_app_nth)
  have rest: "map (\<lambda>k. ucast (drop_bit (8 * k) val') :: u8) [0..<k] =
              map (\<lambda>k. ucast (drop_bit (8 * (Suc k)) val)) [0..<k]"
  proof (cases "sizeof TYPE('a) > 1")
    case True then show ?thesis by (simp add: val'_def add.commute)
  next
    case False
    then have "k = 0" using k by simp
    then show ?thesis by simp
  qed
  have up: "[0..<sizeof TYPE('a) - i] = 0 # map Suc [0..<k]"
    using Suc.hyps(2) [symmetric] by (simp add: upt_conv_Cons map_Suc_upt del: upt_Suc)
  show ?case
    unfolding step Suc.hyps(1) [OF k len'] tk up using k rest
    by (simp add: comp_def)
qed

section \<open>Storage and value\<close>

lemma nth_object_bytes_be:
  "k < sizeof TYPE('a) \<Longrightarrow>
   object_bytes BigEndian (x :: 'a::len word) ! k =
     ucast (drop_bit (8 * (sizeof TYPE('a) - 1 - k)) x)"
  by (simp add: object_bytes_def rev_nth)

lemma object_bytes_be_rev:
  "object_bytes BigEndian x = rev (object_bytes LittleEndian x)"
  by (simp add: object_bytes_def)

lemma object_value_be_rev:
  "object_value BigEndian bs = object_value LittleEndian (rev bs)"
  by (simp add: object_value_def)

lemma object_value_bytes_le:
  assumes L: "LENGTH('a::len) = 8 * sizeof TYPE('a)"
  shows "object_value LittleEndian (object_bytes LittleEndian (v :: 'a word)) = v"
proof (rule bit_word_eqI)
  fix n assume n: "n < LENGTH('a)"
  then have d: "n div 8 < sizeof TYPE('a)"
    using L by (simp add: less_mult_imp_div_less mult.commute)
  show "bit (object_value LittleEndian (object_bytes LittleEndian v) :: 'a word) n = bit v n"
    using n d
    by (simp add: bit_object_value_le nth_object_bytes_le bit_ucast_iff bit_drop_bit_eq)
qed

lemma object_bytes_value_le:
  assumes L: "LENGTH('a::len) = 8 * sizeof TYPE('a)" and len: "length bs = sizeof TYPE('a)"
  shows "object_bytes LittleEndian (object_value LittleEndian bs :: 'a word) = bs"
proof (rule nth_equalityI)
  show "length (object_bytes LittleEndian (object_value LittleEndian bs :: 'a word)) = length bs"
    using len by simp
next
  fix k assume "k < length (object_bytes LittleEndian (object_value LittleEndian bs :: 'a word))"
  then have k: "k < sizeof TYPE('a)" by simp
  have "ucast (drop_bit (8 * k) (object_value LittleEndian bs :: 'a word)) = bs ! k"
  proof (rule bit_word_eqI)
    fix m assume "m < LENGTH(8)"
    then have m: "m < 8" by simp
    then have "8 * k + m < LENGTH('a)" using k L by simp
    then show "bit (ucast (drop_bit (8 * k) (object_value LittleEndian bs :: 'a word)) :: u8) m
        = bit (bs ! k) m"
      using m k len
      by (simp add: bit_ucast_iff bit_drop_bit_eq bit_object_value_le)
  qed
  then show "object_bytes LittleEndian (object_value LittleEndian bs :: 'a word) ! k = bs ! k"
    using k by (simp add: nth_object_bytes_le)
qed

lemma object_value_bytes:
  assumes L: "LENGTH('a::len) = 8 * sizeof TYPE('a)"
  shows "object_value order (object_bytes order (v :: 'a word)) = v"
  by (cases order) (simp_all add: object_value_bytes_le [OF L] object_bytes_be_rev object_value_be_rev)

lemma object_bytes_value:
  assumes L: "LENGTH('a::len) = 8 * sizeof TYPE('a)" and len: "length bs = sizeof TYPE('a)"
  shows "object_bytes order (object_value order bs :: 'a word) = bs"
  using object_bytes_value_le [OF L len] object_bytes_value_le [OF L, of "rev bs"] len
  by (cases order) (simp_all add: object_bytes_be_rev object_value_be_rev)

lemma FromLittleEndian_value:
  assumes L: "LENGTH('a::len) = 8 * sizeof TYPE('a)" and len: "length bytes = sizeof TYPE('a)"
  shows "(FromLittleEndian p c bytes :: 'a word option) =
     Some (object_value (if cxx17_is_constant_evaluated p c then LittleEndian else host_order p) bytes)"
  using len by (simp add: FromLittleEndian_def FromLittleEndian_loop_value [OF L len] memcpy_def)

lemma ToLittleEndian_bytes:
  assumes L: "LENGTH('a::len) = 8 * sizeof TYPE('a)"
  shows "ToLittleEndian p c (val :: 'a word) =
     Some (object_bytes (if cxx17_is_constant_evaluated p c then LittleEndian else host_order p) val)"
  by (simp add: ToLittleEndian_def Let_def ToLittleEndian_loop_bytes [OF L] memcpy_def)
    (simp add: object_bytes_def)

section \<open>The two paths of SwapBytes\<close>

lemma byte_reverse_ucast:
  assumes "LENGTH('a::len) = 8 * sz" "LENGTH('b::len) = 8 * sz"
  shows "ucast (byte_reverse (ucast (v :: 'a word) :: 'b word)) = byte_reverse v"
proof (rule bit_word_eqI)
  fix n assume n: "n < LENGTH('a)"
  then have "8 * (sz - 1 - n div 8) + n mod 8 < 8 * sz"
    using assms(1) by (simp add: less_mult_imp_div_less mult.commute)
  then show "bit (ucast (byte_reverse (ucast v :: 'b word)) :: 'a word) n = bit (byte_reverse v) n"
    using n assms
    by (simp add: bit_ucast_iff bit_byte_reverse [where sz = sz])
qed

lemma swap2:
  assumes "LENGTH('a::len) = 16"
  shows "ucast (push_bit 8 (drop_bit 0 (ucast v :: uint) AND 0xff) OR
          push_bit 0 (drop_bit 8 (ucast v :: uint) AND 0xff)) = byte_reverse (v :: 'a word)"
proof (rule bit_word_eqI)
  fix n :: nat assume "n < LENGTH('a)"
  then have "n < 8 * 2" using assms by simp
  then obtain q r where qr: "q < 2" "r < 8" "n = 8 * q + r" by (rule byte_index)
  have R: "bit (byte_reverse v) n = bit v (8 * (2 - 1 - q) + r)"
    unfolding qr(3) by (rule bit_byte_reverse_at) (simp_all add: qr assms)
  from qr(1) consider "q = 0" | "q = 1" by linarith
  then show "bit (ucast (push_bit 8 (drop_bit 0 (ucast v :: uint) AND 0xff) OR
          push_bit 0 (drop_bit 8 (ucast v :: uint) AND 0xff)) :: 'a word) n = bit (byte_reverse v) n"
    unfolding bit_ucast_iff bit_or_iff bit_place_byte R
    using qr(2,3) assms by cases simp_all
qed

lemma swap4:
  assumes "LENGTH('a::len) = 32"
  shows "push_bit 24 (drop_bit 0 v AND 0xff) OR push_bit 16 (drop_bit 8 v AND 0xff) OR
   push_bit 8 (drop_bit 16 v AND 0xff) OR push_bit 0 (drop_bit 24 v AND 0xff)
     = byte_reverse (v :: 'a word)"
proof (rule bit_word_eqI)
  fix n :: nat assume "n < LENGTH('a)"
  then have "n < 8 * 4" using assms by simp
  then obtain q r where qr: "q < 4" "r < 8" "n = 8 * q + r" by (rule byte_index)
  have R: "bit (byte_reverse v) n = bit v (8 * (4 - 1 - q) + r)"
    unfolding qr(3) by (rule bit_byte_reverse_at) (simp_all add: qr assms)
  from qr(1) consider "q = 0" | "q = 1" | "q = 2" | "q = 3" by linarith
  then show "bit (push_bit 24 (drop_bit 0 v AND 0xff) OR push_bit 16 (drop_bit 8 v AND 0xff) OR
   push_bit 8 (drop_bit 16 v AND 0xff) OR push_bit 0 (drop_bit 24 v AND 0xff)) n
     = bit (byte_reverse v) n"
    unfolding bit_or_iff bit_place_byte R
    using qr(2,3) assms by cases simp_all
qed

lemma swap8:
  assumes "LENGTH('a::len) = 64"
  shows "push_bit 56 (drop_bit 0 v AND 0xff) OR push_bit 48 (drop_bit 8 v AND 0xff) OR
   push_bit 40 (drop_bit 16 v AND 0xff) OR push_bit 32 (drop_bit 24 v AND 0xff) OR
   push_bit 24 (drop_bit 32 v AND 0xff) OR push_bit 16 (drop_bit 40 v AND 0xff) OR
   push_bit 8 (drop_bit 48 v AND 0xff) OR push_bit 0 (drop_bit 56 v AND 0xff)
     = byte_reverse (v :: 'a word)"
proof (rule bit_word_eqI)
  fix n :: nat assume "n < LENGTH('a)"
  then have "n < 8 * 8" using assms by simp
  then obtain q r where qr: "q < 8" "r < 8" "n = 8 * q + r" by (rule byte_index)
  have R: "bit (byte_reverse v) n = bit v (8 * (8 - 1 - q) + r)"
    unfolding qr(3) by (rule bit_byte_reverse_at) (simp_all add: qr assms)
  from qr(1) consider "q = 0" | "q = 1" | "q = 2" | "q = 3" | "q = 4" | "q = 5" | "q = 6" | "q = 7"
    by linarith
  then show "bit (push_bit 56 (drop_bit 0 v AND 0xff) OR push_bit 48 (drop_bit 8 v AND 0xff) OR
   push_bit 40 (drop_bit 16 v AND 0xff) OR push_bit 32 (drop_bit 24 v AND 0xff) OR
   push_bit 24 (drop_bit 32 v AND 0xff) OR push_bit 16 (drop_bit 40 v AND 0xff) OR
   push_bit 8 (drop_bit 48 v AND 0xff) OR push_bit 0 (drop_bit 56 v AND 0xff)) n
     = bit (byte_reverse v) n"
    unfolding bit_or_iff bit_place_byte R
    using qr(2,3) assms by cases simp_all
qed

lemma byte_reverse_1:
  assumes "LENGTH('a::len) = 8"
  shows "byte_reverse (v :: 'a word) = v"
proof (rule bit_word_eqI)
  fix n assume "n < LENGTH('a)"
  then show "bit (byte_reverse v) n = bit v n"
    using assms by (simp add: bit_byte_reverse [where sz = 1])
qed

lemma SwapBytes_1:
  assumes "LENGTH('a::len) = 8"
  shows "SwapBytes p c (v :: 'a word) = Some (byte_reverse v)"
  using assms by (simp add: SwapBytes_def sizeof_def byte_reverse_1)

lemma SwapBytes_2:
  assumes "LENGTH('a::len) = 16"
  shows "SwapBytes p c (v :: 'a word) = Some (byte_reverse v)"
  using swap2 [OF assms, of v] assms
    byte_reverse_ucast [where 'a = 'a and 'b = 16 and sz = 2, of v]
  by (simp add: SwapBytes_def sizeof_def shr_def shl_def intrinsic_defs)

lemma SwapBytes_4:
  assumes "LENGTH('a::len) = 32"
  shows "SwapBytes p c (v :: 'a word) = Some (byte_reverse v)"
  using swap4 [OF assms, of v] assms
    byte_reverse_ucast [where 'a = 'a and 'b = 32 and sz = 4, of v]
  by (simp add: SwapBytes_def sizeof_def shr_def shl_def intrinsic_defs)

lemma SwapBytes_8:
  assumes "LENGTH('a::len) = 64"
  shows "SwapBytes p c (v :: 'a word) = Some (byte_reverse v)"
  using swap8 [OF assms, of v] assms
    byte_reverse_ucast [where 'a = 'a and 'b = 64 and sz = 8, of v]
  by (simp add: SwapBytes_def sizeof_def shr_def shl_def intrinsic_defs)

lemma SwapBytes_byte_reverse:
  assumes "LENGTH('a::len) \<in> {8, 16, 32, 64}"
  shows "SwapBytes p c (v :: 'a word) = Some (byte_reverse v)"
  using assms SwapBytes_1 [of p c v] SwapBytes_2 [of p c v] SwapBytes_4 [of p c v]
    SwapBytes_8 [of p c v]
  by auto

lemma supported_width:
  assumes "LENGTH('a::len) \<in> {8, 16, 32, 64}"
  shows "LENGTH('a) = 8 * sizeof TYPE('a)"
  using assms by (auto simp add: sizeof_def)

lemma byte_reverse_involution:
  assumes L: "LENGTH('a::len) = 8 * sizeof TYPE('a)"
  shows "byte_reverse (byte_reverse (v :: 'a word)) = v"
proof -
  have "byte_reverse (byte_reverse v) =
      object_value BigEndian (object_bytes LittleEndian
        (object_value LittleEndian (object_bytes BigEndian v) :: 'a word))"
    by (simp add: byte_reverse_def object_value_be_rev object_bytes_be_rev)
  also have "\<dots> = object_value BigEndian (object_bytes BigEndian v)"
    by (simp add: object_bytes_value_le [OF L])
  also have "\<dots> = v" by (rule object_value_bytes [OF L])
  finally show ?thesis .
qed

section \<open>Signed values and single values\<close>

lemma bit_sint_below:
  "n < LENGTH('a::len) \<Longrightarrow> bit (sint (u :: 'a word)) n = bit u n"
  by (auto simp add: bit_sint_iff)

lemma byte_reverse_positions:
  assumes "LENGTH('a::len) = 8 * w" "i < w" "j < 8"
  shows "bit (byte_reverse (v :: 'a word)) (8 * (w - 1 - i) + j) = bit v (8 * i + j)"
proof -
  have "w - 1 - i < w" "w - 1 - (w - 1 - i) = i" using assms(2) by arith+
  then show ?thesis
    using bit_byte_reverse_at [OF assms(1) _ assms(3), of "w - 1 - i" v] by simp
qed

lemma sint_word_of_int_in_range:
  assumes "- (2 ^ (LENGTH('a::len) - 1)) \<le> x" "x < 2 ^ (LENGTH('a) - 1)"
  shows "sint (word_of_int x :: 'a word) = x"
  using assms by (simp add: sint_sbintrunc' signed_take_bit_int_eq_self)

lemma sint_in_range:
  "- (2 ^ (LENGTH('a::len) - 1)) \<le> sint (u :: 'a word) \<and> sint u < 2 ^ (LENGTH('a) - 1)"
  using sint_ge [of u] sint_lt [of u] by simp

lemma SwapBytes_signed_byte_reverse:
  assumes "LENGTH('a::len) \<in> {8, 16, 32, 64}"
  shows "SwapBytes_signed p c TYPE('a) x = Some (sint (byte_reverse (word_of_int x :: 'a word)))"
  by (simp add: SwapBytes_signed_def SwapBytes_byte_reverse [OF assms])

lemma SwapBytes_0x1234: "SwapBytes p c (0x1234 :: u16) = Some 0x3412"
  by (simp add: SwapBytes_def sizeof_def shr_def shl_def intrinsic_defs byte_reverse_def
      object_bytes_def object_value_def word_rcat_def upt_rec)

lemma SwapBytes_0xAABBCCDD: "SwapBytes p c (0xAABBCCDD :: u32) = Some 0xDDCCBBAA"
  by (simp add: SwapBytes_def sizeof_def shr_def shl_def intrinsic_defs byte_reverse_def
      object_bytes_def object_value_def word_rcat_def upt_rec)

lemma SwapBytes_0xFFFE: "SwapBytes p c (0xFFFE :: u16) = Some 0xFEFF"
  by (simp add: SwapBytes_def sizeof_def shr_def shl_def intrinsic_defs byte_reverse_def
      object_bytes_def object_value_def word_rcat_def upt_rec)

section \<open>The codec on one byte, and the value of a storage as a sum\<close>

lemma object_bytes_one:
  assumes "sizeof TYPE('a::len) = 1"
  shows "object_bytes order (v :: 'a word) = object_bytes LittleEndian v"
  using assms by (cases order) (simp_all add: object_bytes_def)

lemma object_value_one:
  assumes "length bs = 1"
  shows "object_value order bs = object_value LittleEndian bs"
proof -
  from assms obtain b where "bs = [b]" by (cases bs) auto
  then show ?thesis by (cases order) (simp_all add: object_value_def)
qed

lemma horner_bytes_bound: "horner_sum unat (256 :: nat) (bs :: u8 list) < 256 ^ length bs"
proof (induction bs)
  case Nil
  show ?case by simp
next
  case (Cons b bs)
  have "unat b < 256" using unsigned_less [of b, where ?'a = nat] by simp
  with Cons show ?case by simp
qed

lemma horner_bytes_int: "horner_sum uint (256 :: int) (bs :: u8 list) = int (horner_sum unat 256 bs)"
  by (induction bs) simp_all

lemma unat_object_value_le:
  assumes L: "LENGTH('a::len) = 8 * sizeof TYPE('a)" and len: "length bytes = sizeof TYPE('a)"
  shows "unat (object_value LittleEndian bytes :: 'a word) =
           (\<Sum>i<(sizeof TYPE('a)). unat (bytes ! i) * 2 ^ (8 * i))"
proof -
  have p: "(256 :: nat) ^ n = 2 ^ (8 * n)" for n
    by (simp add: power_mult)
  have "horner_sum unat (256 :: nat) bytes < 2 ^ LENGTH('a)"
    using horner_bytes_bound [of bytes] by (simp add: p len L [symmetric])
  then have "unat (object_value LittleEndian bytes :: 'a word) = horner_sum unat 256 bytes"
    by (simp add: object_value_def word_rcat_def horner_bytes_int unat_of_nat)
  also have "\<dots> = (\<Sum>i<(sizeof TYPE('a)). unat (bytes ! i) * 2 ^ (8 * i))"
    by (simp add: horner_sum_eq_sum len p lessThan_atLeast0)
  finally show ?thesis .
qed

lemma ToLittleEndian_0x0102030405060708:
  assumes "cxx17_is_constant_evaluated p c \<or> host_order p = LittleEndian"
  shows "ToLittleEndian p c (0x0102030405060708 :: u64) =
           Some [0x08, 0x07, 0x06, 0x05, 0x04, 0x03, 0x02, 0x01]"
proof -
  have L: "LENGTH(64) = 8 * sizeof TYPE(64)" by (simp add: sizeof_def)
  have "object_bytes LittleEndian (0x0102030405060708 :: u64) =
      [0x08, 0x07, 0x06, 0x05, 0x04, 0x03, 0x02, 0x01]"
    by (simp add: object_bytes_def sizeof_def upt_rec)
  then show ?thesis using assms by (auto simp add: ToLittleEndian_bytes [OF L])
qed

section \<open>Claims\<close>

text \<open>
  C1. For an unsigned type of two, four or eight bytes and every value of it, the
  shift-and-mask path of \<open>SwapBytes\<close>, taken when the detector reports constant
  evaluation, and the path through the byte-swap intrinsic, taken otherwise, return
  the same result.
\<close>

theorem SwapBytes_paths_agree:
  assumes "LENGTH('a::len) \<in> {16, 32, 64}"
    and "cxx17_is_constant_evaluated p c"
    and "\<not> cxx17_is_constant_evaluated q d"
  shows "\<exists>r. SwapBytes p c (v :: 'a word) = Some r \<and> SwapBytes q d v = Some r"
proof -
  have "LENGTH('a) \<in> {8, 16, 32, 64}" using assms(1) by auto
  then have "SwapBytes p c v = Some (byte_reverse v)" "SwapBytes q d v = Some (byte_reverse v)"
    by (rule SwapBytes_byte_reverse)+
  then show ?thesis by simp
qed

text \<open>C1 at \<open>0x1234\<close>, GCC or Clang in a constant expression against MSVC at run time.\<close>

theorem SwapBytes_paths_agree_witness:
  "LENGTH(16) \<in> {16, 32, 64 :: nat} \<and>
   cxx17_is_constant_evaluated
     \<lparr>gnuc9_or_clang = True, msc_ver = False, host_order = LittleEndian\<rparr> ConstantEvaluation \<and>
   \<not> cxx17_is_constant_evaluated
     \<lparr>gnuc9_or_clang = False, msc_ver = True, host_order = LittleEndian\<rparr> RunTime \<and>
   (\<exists>r. SwapBytes \<lparr>gnuc9_or_clang = True, msc_ver = False, host_order = LittleEndian\<rparr>
           ConstantEvaluation (0x1234 :: u16) = Some r \<and>
        SwapBytes \<lparr>gnuc9_or_clang = False, msc_ver = True, host_order = LittleEndian\<rparr>
           RunTime (0x1234 :: u16) = Some r)"
proof -
  have h1: "LENGTH(16) \<in> {16, 32, 64 :: nat}" by simp
  have h2: "cxx17_is_constant_evaluated
     \<lparr>gnuc9_or_clang = True, msc_ver = False, host_order = LittleEndian\<rparr> ConstantEvaluation"
    by (simp add: cxx17_is_constant_evaluated_def builtin_is_constant_evaluated_def)
  have h3: "\<not> cxx17_is_constant_evaluated
     \<lparr>gnuc9_or_clang = False, msc_ver = True, host_order = LittleEndian\<rparr> RunTime"
    by (simp add: cxx17_is_constant_evaluated_def)
  from SwapBytes_paths_agree [OF h1 h2 h3, of "0x1234"] h1 h2 h3 show ?thesis by blast
qed

text \<open>
  C2. For a type of \<open>w\<close> bytes, \<open>w\<close> one of 1, 2, 4, 8, signed or unsigned, the byte
  at position \<open>i\<close> of the argument (bits \<open>8 * i\<close> to \<open>8 * i + 7\<close> of its bit pattern) is
  the byte at position \<open>w - 1 - i\<close> of the result of \<open>SwapBytes\<close>, for every \<open>i < w\<close>.
  For one byte the result is the argument. \<open>0x1234\<close> goes to \<open>0x3412\<close> and
  \<open>0xAABBCCDD\<close> to \<open>0xDDCCBBAA\<close>. The result for a signed type is a value of that
  type.
\<close>

theorem SwapBytes_byte_positions:
  assumes "LENGTH('a::len) = 8 * w" and "w \<in> {1, 2, 4, 8}"
  shows "(\<exists>r. SwapBytes p c (v :: 'a word) = Some r \<and>
            (\<forall>i<w. \<forall>j<8. bit r (8 * (w - 1 - i) + j) = bit v (8 * i + j)) \<and>
            (w = 1 \<longrightarrow> r = v)) \<and>
         (\<exists>s. SwapBytes_signed p c TYPE('a) x = Some s \<and>
            - (2 ^ (LENGTH('a) - 1)) \<le> s \<and> s < 2 ^ (LENGTH('a) - 1) \<and>
            (\<forall>i<w. \<forall>j<8. bit s (8 * (w - 1 - i) + j) = bit x (8 * i + j)) \<and>
            (w = 1 \<and> - (2 ^ (LENGTH('a) - 1)) \<le> x \<and> x < 2 ^ (LENGTH('a) - 1) \<longrightarrow> s = x)) \<and>
         SwapBytes p c (0x1234 :: u16) = Some 0x3412 \<and>
         SwapBytes p c (0xAABBCCDD :: u32) = Some 0xDDCCBBAA"
proof -
  have W: "LENGTH('a) \<in> {8, 16, 32, 64}" using assms by auto
  have U: "SwapBytes p c v = Some (byte_reverse v)" by (rule SwapBytes_byte_reverse [OF W])
  have U1: "\<forall>i<w. \<forall>j<8. bit (byte_reverse v) (8 * (w - 1 - i) + j) = bit v (8 * i + j)"
    using byte_reverse_positions [OF assms(1)] by blast
  have U2: "w = 1 \<longrightarrow> byte_reverse v = v" using assms(1) by (auto intro: byte_reverse_1)
  define s where "s = sint (byte_reverse (word_of_int x :: 'a word))"
  have S: "SwapBytes_signed p c TYPE('a) x = Some s"
    unfolding s_def by (rule SwapBytes_signed_byte_reverse [OF W])
  have S0: "- (2 ^ (LENGTH('a) - 1)) \<le> s \<and> s < 2 ^ (LENGTH('a) - 1)"
    unfolding s_def by (rule sint_in_range)
  have S1: "bit s (8 * (w - 1 - i) + j) = bit x (8 * i + j)" if "i < w" "j < 8" for i j
  proof -
    have a: "8 * (w - 1 - i) + j < LENGTH('a)" "8 * i + j < LENGTH('a)"
      using that assms(1) by auto
    have "bit s (8 * (w - 1 - i) + j)
        = bit (byte_reverse (word_of_int x :: 'a word)) (8 * (w - 1 - i) + j)"
      unfolding s_def using a(1) by (rule bit_sint_below)
    also have "\<dots> = bit (word_of_int x :: 'a word) (8 * i + j)"
      using assms(1) that by (rule byte_reverse_positions)
    also have "\<dots> = bit x (8 * i + j)" using a(2) by (simp add: bit_word_of_int_iff)
    finally show ?thesis .
  qed
  have S2: "w = 1 \<and> - (2 ^ (LENGTH('a) - 1)) \<le> x \<and> x < 2 ^ (LENGTH('a) - 1) \<longrightarrow> s = x"
    using assms(1) by (auto simp add: s_def byte_reverse_1 sint_word_of_int_in_range)
  show ?thesis
    using U U1 U2 S S0 S1 S2 SwapBytes_0x1234 [of p c] SwapBytes_0xAABBCCDD [of p c]
    by blast
qed

text \<open>
  C2 at the two-byte types, for byte \<open>0\<close> and bit \<open>4\<close> of it: the unsigned value
  \<open>0x1234\<close> and the signed value \<open>-2\<close>.
\<close>

theorem SwapBytes_byte_positions_witness:
  "LENGTH(16) = 8 * (2 :: nat) \<and> (2 :: nat) \<in> {1, 2, 4, 8} \<and> (0 :: nat) < 2 \<and> (4 :: nat) < 8 \<and>
   (\<exists>r. SwapBytes \<lparr>gnuc9_or_clang = True, msc_ver = False, host_order = LittleEndian\<rparr>
           ConstantEvaluation (0x1234 :: u16) = Some r \<and>
        bit r (8 * (2 - 1 - 0) + 4) = bit (0x1234 :: u16) (8 * 0 + 4)) \<and>
   (\<exists>s. SwapBytes_signed \<lparr>gnuc9_or_clang = True, msc_ver = False, host_order = LittleEndian\<rparr>
           ConstantEvaluation TYPE(16) (- 2) = Some s \<and>
        bit s (8 * (2 - 1 - 0) + 4) = bit (- 2 :: int) (8 * 0 + 4))"
proof -
  have h1: "LENGTH(16) = 8 * (2 :: nat)" by simp
  have h2: "(2 :: nat) \<in> {1, 2, 4, 8}" by simp
  have h3: "(0 :: nat) < 2" "(4 :: nat) < 8" by simp_all
  from SwapBytes_byte_positions [OF h1 h2,
      of "\<lparr>gnuc9_or_clang = True, msc_ver = False, host_order = LittleEndian\<rparr>"
         ConstantEvaluation "0x1234" "- 2"] h1 h2 h3
  show ?thesis by blast
qed

text \<open>
  C3, as the header has it. Each call picks its branch by its own call of the
  detector, so each works in a byte order of its own: little-endian when the
  detector reports constant evaluation, the order of its host otherwise. For an
  unsigned type of 1, 2, 4 or 8 bytes and every value \<open>v\<close> of it,
  \<open>FromLittleEndian (ToLittleEndian v)\<close> is \<open>v\<close> when the two calls work in the same byte
  order, or the type has one byte: so on little-endian hosts always, and on any
  host when both calls are constant-evaluated or both are at run time there.
\<close>

theorem codec_value_round_trip:
  assumes "LENGTH('a::len) \<in> {8, 16, 32, 64}"
    and "(if cxx17_is_constant_evaluated p c then LittleEndian else host_order p) =
         (if cxx17_is_constant_evaluated q d then LittleEndian else host_order q) \<or>
         sizeof TYPE('a) = 1"
  shows "ToLittleEndian p c (v :: 'a word) \<bind> FromLittleEndian q d = Some v"
proof -
  have L: "LENGTH('a) = 8 * sizeof TYPE('a)" using assms(1) by (rule supported_width)
  define o1 where "o1 = (if cxx17_is_constant_evaluated p c then LittleEndian else host_order p)"
  define o2 where "o2 = (if cxx17_is_constant_evaluated q d then LittleEndian else host_order q)"
  have T: "ToLittleEndian p c v = Some (object_bytes o1 v)"
    unfolding o1_def by (rule ToLittleEndian_bytes [OF L])
  have F: "(FromLittleEndian q d (object_bytes o1 v) :: 'a word option) =
      Some (object_value o2 (object_bytes o1 v))"
    unfolding o2_def by (rule FromLittleEndian_value [OF L]) simp
  have "o1 = o2 \<or> sizeof TYPE('a) = 1" using assms(2) by (simp add: o1_def o2_def)
  then have "(object_value o2 (object_bytes o1 v) :: 'a word) = v"
  proof
    assume "o1 = o2"
    then show ?thesis by (simp add: object_value_bytes [OF L])
  next
    assume one: "sizeof TYPE('a) = 1"
    have "(object_value o2 (object_bytes o1 v) :: 'a word) =
        object_value LittleEndian (object_bytes LittleEndian v)"
      using object_bytes_one [OF one, of o1 v]
        object_value_one [of "object_bytes LittleEndian v" o2] one
      by simp
    then show ?thesis by (simp add: object_value_bytes [OF L])
  qed
  then show ?thesis by (simp add: T F)
qed

text \<open>
  C3 on a big-endian host with both calls at run time, where both copy the storage.
\<close>

theorem codec_value_round_trip_witness:
  "LENGTH(64) \<in> {8, 16, 32, 64 :: nat} \<and>
   (if cxx17_is_constant_evaluated \<lparr>gnuc9_or_clang = True, msc_ver = False, host_order = BigEndian\<rparr> RunTime then LittleEndian else host_order \<lparr>gnuc9_or_clang = True, msc_ver = False, host_order = BigEndian\<rparr>) =
   (if cxx17_is_constant_evaluated \<lparr>gnuc9_or_clang = True, msc_ver = False, host_order = BigEndian\<rparr> RunTime then LittleEndian else host_order \<lparr>gnuc9_or_clang = True, msc_ver = False, host_order = BigEndian\<rparr>) \<and>
   ToLittleEndian \<lparr>gnuc9_or_clang = True, msc_ver = False, host_order = BigEndian\<rparr> RunTime
       (0x0102030405060708 :: u64)
     \<bind> FromLittleEndian \<lparr>gnuc9_or_clang = True, msc_ver = False, host_order = BigEndian\<rparr>
       RunTime
     = Some (0x0102030405060708 :: u64)"
proof -
  have h1: "LENGTH(64) \<in> {8, 16, 32, 64 :: nat}" by simp
  have h2: "(if cxx17_is_constant_evaluated \<lparr>gnuc9_or_clang = True, msc_ver = False, host_order = BigEndian\<rparr> RunTime then LittleEndian else host_order \<lparr>gnuc9_or_clang = True, msc_ver = False, host_order = BigEndian\<rparr>) =
   (if cxx17_is_constant_evaluated \<lparr>gnuc9_or_clang = True, msc_ver = False, host_order = BigEndian\<rparr> RunTime then LittleEndian else host_order \<lparr>gnuc9_or_clang = True, msc_ver = False, host_order = BigEndian\<rparr>)"
    by (rule refl)
  note t = codec_value_round_trip [OF h1 disjI1 [OF h2], of "0x0102030405060708"]
  from h1 h2 t show ?thesis by (intro conjI)
qed

text \<open>
  C3 as stated, for any two calls, fails: on a big-endian host a value of two bytes
  that is encoded in a constant expression and decoded at run time comes back with
  its bytes exchanged, \<open>0x0102\<close> as \<open>0x0201\<close>.
\<close>

theorem codec_value_round_trip_mixed_counterexample:
  "ToLittleEndian \<lparr>gnuc9_or_clang = True, msc_ver = False, host_order = BigEndian\<rparr> ConstantEvaluation (0x0102 :: u16) \<bind> FromLittleEndian \<lparr>gnuc9_or_clang = True, msc_ver = False, host_order = BigEndian\<rparr> RunTime
     = Some (0x0201 :: u16) \<and>
   ToLittleEndian \<lparr>gnuc9_or_clang = True, msc_ver = False, host_order = BigEndian\<rparr> ConstantEvaluation (0x0102 :: u16) \<bind> FromLittleEndian \<lparr>gnuc9_or_clang = True, msc_ver = False, host_order = BigEndian\<rparr> RunTime
     \<noteq> Some (0x0102 :: u16)"
proof -
  have L: "LENGTH(16) = 8 * sizeof TYPE(16)" by (simp add: sizeof_def)
  have T: "ToLittleEndian \<lparr>gnuc9_or_clang = True, msc_ver = False, host_order = BigEndian\<rparr> ConstantEvaluation (0x0102 :: u16) = Some [0x02, 0x01]"
    by (simp add: ToLittleEndian_bytes [OF L] cxx17_is_constant_evaluated_def
        builtin_is_constant_evaluated_def object_bytes_def sizeof_def upt_rec)
  have F: "(FromLittleEndian \<lparr>gnuc9_or_clang = True, msc_ver = False, host_order = BigEndian\<rparr> RunTime [0x02, 0x01] :: u16 option) = Some 0x0201"
    by (simp add: FromLittleEndian_def cxx17_is_constant_evaluated_def
        builtin_is_constant_evaluated_def memcpy_def object_value_def word_rcat_def sizeof_def)
  show ?thesis by (simp add: T F)
qed

text \<open>
  C4, as the header has it. For an unsigned type of \<open>w\<close> bytes, when the detector
  reports constant evaluation, or the host is little-endian, or \<open>w = 1\<close>:
  \<open>ToLittleEndian v\<close> is a sequence of \<open>w\<close> bytes whose byte \<open>i\<close> is
  \<open>(v >> (8 * i)) & 0xFF\<close>, and \<open>FromLittleEndian bytes\<close> is the sum of
  \<open>bytes[i] * 2 ^ (8 * i)\<close> over \<open>i < w\<close>; \<open>0x0102030405060708\<close> goes to
  \<open>[0x08, 0x07, 0x06, 0x05, 0x04, 0x03, 0x02, 0x01]\<close>. The run-time path on a
  big-endian host copies the bytes in the other order, and the header has nothing
  that tells the hosts apart.
\<close>

theorem codec_little_endian_layout:
  assumes "LENGTH('a::len) = 8 * w" and "w \<in> {1, 2, 4, 8}" and "length bytes = w"
    and "cxx17_is_constant_evaluated p c \<or> host_order p = LittleEndian \<or> w = 1"
  shows "(\<exists>bs. ToLittleEndian p c (v :: 'a word) = Some bs \<and> length bs = w \<and>
            (\<forall>i<w. bs ! i = ucast (drop_bit (8 * i) v AND 0xff))) \<and>
         (\<exists>r :: 'a word. FromLittleEndian p c bytes = Some r \<and>
            unat r = (\<Sum>i<w. unat (bytes ! i) * 2 ^ (8 * i))) \<and>
         (cxx17_is_constant_evaluated p c \<or> host_order p = LittleEndian \<longrightarrow>
            ToLittleEndian p c (0x0102030405060708 :: u64) =
              Some [0x08, 0x07, 0x06, 0x05, 0x04, 0x03, 0x02, 0x01])"
proof -
  have w: "sizeof TYPE('a) = w" using assms(1) by (simp add: sizeof_def)
  have L: "LENGTH('a) = 8 * sizeof TYPE('a)" using assms(1) w by simp
  have len: "length bytes = sizeof TYPE('a)" using assms(3) w by simp
  define order where
    "order = (if cxx17_is_constant_evaluated p c then LittleEndian else host_order p)"
  have T: "ToLittleEndian p c v = Some (object_bytes order v)"
    unfolding order_def by (rule ToLittleEndian_bytes [OF L])
  have F: "(FromLittleEndian p c bytes :: 'a word option) = Some (object_value order bytes)"
    unfolding order_def using L len by (rule FromLittleEndian_value)
  have "order = LittleEndian \<or> w = 1" using assms(4) by (auto simp add: order_def)
  then have ob: "object_bytes order v = object_bytes LittleEndian v"
    and ov: "(object_value order bytes :: 'a word) = object_value LittleEndian bytes"
    using object_bytes_one [of order v] object_value_one [of bytes order] w assms(3) by auto
  have A: "\<forall>i<w. object_bytes LittleEndian v ! i = ucast (drop_bit (8 * i) v AND 0xff)"
    by (simp add: nth_object_bytes_le ucast_and_0xff w)
  have E: "cxx17_is_constant_evaluated p c \<or> host_order p = LittleEndian \<longrightarrow>
      ToLittleEndian p c (0x0102030405060708 :: u64) =
        Some [0x08, 0x07, 0x06, 0x05, 0x04, 0x03, 0x02, 0x01]"
    using ToLittleEndian_0x0102030405060708 [of p c] by auto
  show ?thesis
    unfolding T F ob ov using A unat_object_value_le [OF L len] w E by simp
qed

text \<open>
  C4 on a little-endian host at run time, for \<open>0x0102030405060708\<close> and its bytes.
\<close>

theorem codec_little_endian_layout_witness:
  "LENGTH(64) = 8 * (8 :: nat) \<and> (8 :: nat) \<in> {1, 2, 4, 8} \<and>
   length [0x08, 0x07, 0x06, 0x05, 0x04, 0x03, 0x02, 0x01 :: u8] = 8 \<and>
   host_order \<lparr>gnuc9_or_clang = True, msc_ver = False, host_order = LittleEndian\<rparr> = LittleEndian \<and>
   (0 :: nat) < 8 \<and>
   ToLittleEndian \<lparr>gnuc9_or_clang = True, msc_ver = False, host_order = LittleEndian\<rparr>
       RunTime (0x0102030405060708 :: u64) = Some [0x08, 0x07, 0x06, 0x05, 0x04, 0x03, 0x02, 0x01] \<and>
   (\<exists>bs. ToLittleEndian \<lparr>gnuc9_or_clang = True, msc_ver = False, host_order = LittleEndian\<rparr>
       RunTime (0x0102030405060708 :: u64) = Some bs \<and> length bs = 8 \<and>
       bs ! 0 = ucast (drop_bit (8 * 0) (0x0102030405060708 :: u64) AND 0xff)) \<and>
   (\<exists>r :: u64. FromLittleEndian \<lparr>gnuc9_or_clang = True, msc_ver = False, host_order = LittleEndian\<rparr>
       RunTime [0x08, 0x07, 0x06, 0x05, 0x04, 0x03, 0x02, 0x01] = Some r \<and>
       unat r = (\<Sum>i<8.
          unat ([0x08, 0x07, 0x06, 0x05, 0x04, 0x03, 0x02, 0x01 :: u8] ! i) * 2 ^ (8 * i)))"
proof -
  have h1: "LENGTH(64) = 8 * (8 :: nat)" by simp
  have h2: "(8 :: nat) \<in> {1, 2, 4, 8}" by simp
  have h3: "length [0x08, 0x07, 0x06, 0x05, 0x04, 0x03, 0x02, 0x01 :: u8] = 8" by simp
  have h4: "host_order \<lparr>gnuc9_or_clang = True, msc_ver = False, host_order = LittleEndian\<rparr>
      = LittleEndian" by simp
  have z: "(0 :: nat) < 8" by simp
  note t = codec_little_endian_layout [OF h1 h2 h3 disjI2 [OF disjI1 [OF h4]],
      of RunTime "0x0102030405060708"]
  from t z h1 h2 h3 h4 show ?thesis by blast
qed

text \<open>
  C4 as stated, without a condition on the host, fails: at run time on a big-endian
  host \<open>ToLittleEndian\<close> of \<open>0x0102030405060708\<close> is not the sequence the claim
  names.
\<close>

theorem ToLittleEndian_big_endian_host_counterexample:
  "ToLittleEndian \<lparr>gnuc9_or_clang = True, msc_ver = False, host_order = BigEndian\<rparr> RunTime
     (0x0102030405060708 :: u64)
   \<noteq> Some [0x08, 0x07, 0x06, 0x05, 0x04, 0x03, 0x02, 0x01]"
  by (simp add: ToLittleEndian_def cxx17_is_constant_evaluated_def
      builtin_is_constant_evaluated_def memcpy_def object_bytes_def sizeof_def upt_rec)

text \<open>
  C5, as the header has it. For an unsigned type of 1, 2, 4 or 8 bytes, the loop
  taken when the detector reports constant evaluation and the \<open>memcpy\<close> taken
  otherwise return the same result, for \<open>FromLittleEndian\<close> on every byte sequence of
  \<open>sizeof(T)\<close> bytes and for \<open>ToLittleEndian\<close> on every value, when the host of the
  \<open>memcpy\<close> is little-endian or the type has one byte.
\<close>

theorem codec_paths_agree:
  assumes "LENGTH('a::len) \<in> {8, 16, 32, 64}" and "length bytes = sizeof TYPE('a)"
    and "cxx17_is_constant_evaluated p c" and "\<not> cxx17_is_constant_evaluated q d"
    and "host_order q = LittleEndian \<or> sizeof TYPE('a) = 1"
  shows "(\<exists>r :: 'a word. FromLittleEndian p c bytes = Some r \<and> FromLittleEndian q d bytes = Some r) \<and>
         (\<exists>bs. ToLittleEndian p c (v :: 'a word) = Some bs \<and> ToLittleEndian q d v = Some bs)"
proof -
  have L: "LENGTH('a) = 8 * sizeof TYPE('a)" using assms(1) by (rule supported_width)
  have ob: "object_bytes (host_order q) v = object_bytes LittleEndian v"
    and ov: "(object_value (host_order q) bytes :: 'a word) = object_value LittleEndian bytes"
    using object_bytes_one [of "host_order q" v] object_value_one [of bytes "host_order q"]
      assms(2,5) by auto
  show ?thesis
    using assms(3,4) ob ov
    by (simp add: ToLittleEndian_bytes [OF L] FromLittleEndian_value [OF L assms(2)])
qed

text \<open>
  C5 for a two-byte type on a little-endian host.
\<close>

theorem codec_paths_agree_witness:
  "LENGTH(16) \<in> {8, 16, 32, 64 :: nat} \<and> length [0x01, 0x00 :: u8] = sizeof TYPE(16) \<and>
   cxx17_is_constant_evaluated
     \<lparr>gnuc9_or_clang = True, msc_ver = False, host_order = LittleEndian\<rparr> ConstantEvaluation \<and>
   \<not> cxx17_is_constant_evaluated
     \<lparr>gnuc9_or_clang = True, msc_ver = False, host_order = LittleEndian\<rparr> RunTime \<and>
   host_order \<lparr>gnuc9_or_clang = True, msc_ver = False, host_order = LittleEndian\<rparr> = LittleEndian \<and>
   (\<exists>r :: u16.
      FromLittleEndian \<lparr>gnuc9_or_clang = True, msc_ver = False, host_order = LittleEndian\<rparr>
        ConstantEvaluation [0x01, 0x00] = Some r \<and>
      FromLittleEndian \<lparr>gnuc9_or_clang = True, msc_ver = False, host_order = LittleEndian\<rparr>
        RunTime [0x01, 0x00] = Some r) \<and>
   (\<exists>bs.
      ToLittleEndian \<lparr>gnuc9_or_clang = True, msc_ver = False, host_order = LittleEndian\<rparr>
        ConstantEvaluation (0x0102 :: u16) = Some bs \<and>
      ToLittleEndian \<lparr>gnuc9_or_clang = True, msc_ver = False, host_order = LittleEndian\<rparr>
        RunTime (0x0102 :: u16) = Some bs)"
proof -
  have h1: "LENGTH(16) \<in> {8, 16, 32, 64 :: nat}" by simp
  have h2: "length [0x01, 0x00 :: u8] = sizeof TYPE(16)" by (simp add: sizeof_def)
  have h3: "cxx17_is_constant_evaluated
     \<lparr>gnuc9_or_clang = True, msc_ver = False, host_order = LittleEndian\<rparr> ConstantEvaluation"
    by (simp add: cxx17_is_constant_evaluated_def builtin_is_constant_evaluated_def)
  have h4: "\<not> cxx17_is_constant_evaluated
     \<lparr>gnuc9_or_clang = True, msc_ver = False, host_order = LittleEndian\<rparr> RunTime"
    by (simp add: cxx17_is_constant_evaluated_def builtin_is_constant_evaluated_def)
  have h5: "host_order \<lparr>gnuc9_or_clang = True, msc_ver = False, host_order = LittleEndian\<rparr>
      = LittleEndian" by simp
  note t = codec_paths_agree [OF h1 h2 h3 h4 disjI1 [OF h5], of "0x0102"]
  show ?thesis by (simp only: h1 h2 h3 h4 h5 t simp_thms)
qed

text \<open>
  C5 as stated, for every host, fails: on a big-endian host the two paths of
  \<open>FromLittleEndian\<close> differ on the bytes \<open>[0x01, 0x00]\<close> of a two-byte type.
\<close>

theorem FromLittleEndian_big_endian_host_counterexample:
  "(FromLittleEndian \<lparr>gnuc9_or_clang = True, msc_ver = False, host_order = BigEndian\<rparr>
      ConstantEvaluation [0x01, 0x00] :: u16 option)
   \<noteq> FromLittleEndian \<lparr>gnuc9_or_clang = True, msc_ver = False, host_order = BigEndian\<rparr>
      RunTime [0x01, 0x00]"
  by (simp add: FromLittleEndian_def cxx17_is_constant_evaluated_def
      builtin_is_constant_evaluated_def memcpy_def object_value_def word_rcat_def sizeof_def
      FromLittleEndian_loop.simps span_at_def shl_def sizeof_int_def)

text \<open>
  C6. For a type of 1, 2, 4 or 8 bytes, unsigned or signed, and every value \<open>v\<close> of
  it, \<open>SwapBytes (SwapBytes v)\<close> is \<open>v\<close>, whichever path each call takes. The values of the signed type of
  \<open>LENGTH('a)\<close> bits are the integers from \<open>- 2 ^ (LENGTH('a) - 1)\<close> up to, not
  including, \<open>2 ^ (LENGTH('a) - 1)\<close>.
\<close>

theorem SwapBytes_involution:
  assumes "LENGTH('a::len) \<in> {8, 16, 32, 64}"
    and "- (2 ^ (LENGTH('a) - 1)) \<le> x" and "x < 2 ^ (LENGTH('a) - 1)"
  shows "SwapBytes p c (v :: 'a word) \<bind> SwapBytes q d = Some v \<and>
         SwapBytes_signed p c TYPE('a) x \<bind> SwapBytes_signed q d TYPE('a) = Some x"
proof -
  have L: "LENGTH('a) = 8 * sizeof TYPE('a)" using assms(1) by (rule supported_width)
  have "SwapBytes p c v \<bind> SwapBytes q d = Some (byte_reverse (byte_reverse v))"
    by (simp add: SwapBytes_byte_reverse [OF assms(1)])
  moreover have "SwapBytes_signed p c TYPE('a) x \<bind> SwapBytes_signed q d TYPE('a)
      = Some (sint (byte_reverse (byte_reverse (word_of_int x :: 'a word))))"
    by (simp add: SwapBytes_signed_byte_reverse [OF assms(1)])
  ultimately show ?thesis
    by (simp add: byte_reverse_involution [OF L] sint_word_of_int_in_range [OF assms(2,3)])
qed

text \<open>
  C6 for the four-byte types, at the bit pattern \<open>0xAABBCCDD\<close>: unsigned, and as
  the signed value \<open>-1430532899\<close>; the inner call in a constant expression, the
  outer one at run time.
\<close>

theorem SwapBytes_involution_witness:
  "LENGTH(32) \<in> {8, 16, 32, 64 :: nat} \<and>
   - (2 ^ (LENGTH(32) - 1)) \<le> (- 1430532899 :: int) \<and> (- 1430532899 :: int) < 2 ^ (LENGTH(32) - 1) \<and>
   SwapBytes \<lparr>gnuc9_or_clang = True, msc_ver = False, host_order = LittleEndian\<rparr>
       ConstantEvaluation (0xAABBCCDD :: u32)
     \<bind> SwapBytes \<lparr>gnuc9_or_clang = True, msc_ver = False, host_order = LittleEndian\<rparr> RunTime
     = Some 0xAABBCCDD \<and>
   SwapBytes_signed \<lparr>gnuc9_or_clang = True, msc_ver = False, host_order = LittleEndian\<rparr>
       ConstantEvaluation TYPE(32) (- 1430532899)
     \<bind> SwapBytes_signed \<lparr>gnuc9_or_clang = True, msc_ver = False, host_order = LittleEndian\<rparr>
       RunTime TYPE(32)
     = Some (- 1430532899)"
proof -
  have h1: "LENGTH(32) \<in> {8, 16, 32, 64 :: nat}" by simp
  have h2: "- (2 ^ (LENGTH(32) - 1)) \<le> (- 1430532899 :: int)" by simp
  have h3: "(- 1430532899 :: int) < 2 ^ (LENGTH(32) - 1)" by simp
  note t = SwapBytes_involution [OF h1 h2 h3,
      of "\<lparr>gnuc9_or_clang = True, msc_ver = False, host_order = LittleEndian\<rparr>"
         ConstantEvaluation "0xAABBCCDD"
         "\<lparr>gnuc9_or_clang = True, msc_ver = False, host_order = LittleEndian\<rparr>" RunTime]
  show ?thesis by (simp only: h1 h2 h3 t simp_thms)
qed

text \<open>
  C7. For a signed type of \<open>w\<close> bytes, \<open>w\<close> one of 1, 2, 4, 8, \<open>SwapBytes\<close> of a value
  is what one gets by taking the value as the unsigned type of the same width
  (\<open>word_of_int\<close>), reversing the bytes of that, and reading the result back as the
  signed type (\<open>sint\<close>). The unsigned result is the byte reversal of the pattern of
  the value; the signed result is a value of the type whose pattern is that
  reversal, so byte \<open>i\<close> of the value is byte \<open>w - 1 - i\<close> of the result and the sign
  adds no bit. \<open>-2\<close> as a two-byte value has the pattern \<open>0xFFFE\<close> and goes to the
  value with the pattern \<open>0xFEFF\<close>, which is \<open>-257\<close>.
\<close>

theorem SwapBytes_signed_as_unsigned:
  assumes "LENGTH('a::len) = 8 * w" and "w \<in> {1, 2, 4, 8}"
  shows "(\<exists>u :: 'a word. \<exists>s.
            SwapBytes p c (word_of_int x) = Some u \<and>
            u = byte_reverse (word_of_int x) \<and>
            SwapBytes_signed p c TYPE('a) x = Some s \<and>
            s = sint u \<and>
            word_of_int s = u \<and>
            - (2 ^ (LENGTH('a) - 1)) \<le> s \<and> s < 2 ^ (LENGTH('a) - 1) \<and>
            (\<forall>i<w. \<forall>j<8. bit u (8 * (w - 1 - i) + j) = bit x (8 * i + j)) \<and>
            (\<forall>i<w. \<forall>j<8. bit s (8 * (w - 1 - i) + j) = bit x (8 * i + j))) \<and>
         (word_of_int (- 2) :: u16) = 0xFFFE \<and>
         SwapBytes_signed p c TYPE(16) (- 2) = Some (sint (0xFEFF :: u16)) \<and>
         sint (0xFEFF :: u16) = - 257"
proof -
  have W: "LENGTH('a) \<in> {8, 16, 32, 64}" using assms by auto
  define u :: "'a word" where "u = byte_reverse (word_of_int x)"
  define s where "s = sint u"
  have U: "SwapBytes p c (word_of_int x :: 'a word) = Some u"
    unfolding u_def by (rule SwapBytes_byte_reverse [OF W])
  have S: "SwapBytes_signed p c TYPE('a) x = Some s"
    unfolding s_def u_def by (rule SwapBytes_signed_byte_reverse [OF W])
  have P: "word_of_int s = u" by (simp add: s_def)
  have R: "- (2 ^ (LENGTH('a) - 1)) \<le> s \<and> s < 2 ^ (LENGTH('a) - 1)"
    unfolding s_def by (rule sint_in_range)
  have Bu: "bit u (8 * (w - 1 - i) + j) = bit x (8 * i + j)" if "i < w" "j < 8" for i j
  proof -
    have a: "8 * i + j < LENGTH('a)" using that assms(1) by auto
    have "bit u (8 * (w - 1 - i) + j) = bit (word_of_int x :: 'a word) (8 * i + j)"
      unfolding u_def using assms(1) that by (rule byte_reverse_positions)
    also have "\<dots> = bit x (8 * i + j)" using a by (simp add: bit_word_of_int_iff)
    finally show ?thesis .
  qed
  have Bs: "bit s (8 * (w - 1 - i) + j) = bit x (8 * i + j)" if "i < w" "j < 8" for i j
  proof -
    have a: "8 * (w - 1 - i) + j < LENGTH('a)" using that assms(1) by auto
    have "bit s (8 * (w - 1 - i) + j) = bit u (8 * (w - 1 - i) + j)"
      unfolding s_def using a by (rule bit_sint_below)
    then show ?thesis using Bu [OF that] by simp
  qed
  have A: "\<exists>u :: 'a word. \<exists>s.
            SwapBytes p c (word_of_int x) = Some u \<and>
            u = byte_reverse (word_of_int x) \<and>
            SwapBytes_signed p c TYPE('a) x = Some s \<and>
            s = sint u \<and>
            word_of_int s = u \<and>
            - (2 ^ (LENGTH('a) - 1)) \<le> s \<and> s < 2 ^ (LENGTH('a) - 1) \<and>
            (\<forall>i<w. \<forall>j<8. bit u (8 * (w - 1 - i) + j) = bit x (8 * i + j)) \<and>
            (\<forall>i<w. \<forall>j<8. bit s (8 * (w - 1 - i) + j) = bit x (8 * i + j))"
    using U S P R Bu Bs u_def s_def by blast
  have B: "(word_of_int (- 2) :: u16) = 0xFFFE" by simp
  have E: "SwapBytes p c (0xFFFE :: u16) = Some 0xFEFF" by (rule SwapBytes_0xFFFE)
  have C: "SwapBytes_signed p c TYPE(16) (- 2) = Some (sint (0xFEFF :: u16))"
    unfolding SwapBytes_signed_def B E by simp
  have D: "sint (0xFEFF :: u16) = - 257" by simp
  from A B C D show ?thesis by blast
qed

text \<open>
  C7 for \<open>-2\<close> as a two-byte value, through the MSVC intrinsic: the hypotheses at
  \<open>w = 2\<close>, the value of the result, and byte \<open>0\<close> of \<open>-2\<close> (bit \<open>0\<close> of it is clear) as
  byte \<open>1\<close> of the result.
\<close>

theorem SwapBytes_signed_as_unsigned_witness:
  "LENGTH(16) = 8 * (2 :: nat) \<and> (2 :: nat) \<in> {1, 2, 4, 8} \<and> (0 :: nat) < 2 \<and> (0 :: nat) < 8 \<and>
   SwapBytes_signed \<lparr>gnuc9_or_clang = False, msc_ver = True, host_order = LittleEndian\<rparr> RunTime TYPE(16) (- 2) = Some (- 257) \<and>
   (\<exists>s. SwapBytes_signed \<lparr>gnuc9_or_clang = False, msc_ver = True, host_order = LittleEndian\<rparr> RunTime TYPE(16) (- 2) = Some s \<and>
      word_of_int s = byte_reverse (word_of_int (- 2) :: u16) \<and>
      bit s (8 * (2 - 1 - 0) + 0) = bit (- 2 :: int) (8 * 0 + 0))"
proof -
  have h1: "LENGTH(16) = 8 * (2 :: nat)" by simp
  have h2: "(2 :: nat) \<in> {1, 2, 4, 8}" by simp
  have h3: "(0 :: nat) < 2" "(0 :: nat) < 8" by simp_all
  note t = SwapBytes_signed_as_unsigned [where 'a = 16, OF h1 h2, of "\<lparr>gnuc9_or_clang = False, msc_ver = True, host_order = LittleEndian\<rparr>" RunTime "- 2"]
  have a: "SwapBytes_signed \<lparr>gnuc9_or_clang = False, msc_ver = True, host_order = LittleEndian\<rparr> RunTime TYPE(16) (- 2) = Some (- 257)"
    using t [THEN conjunct2] by simp
  have b: "\<exists>s. SwapBytes_signed \<lparr>gnuc9_or_clang = False, msc_ver = True, host_order = LittleEndian\<rparr> RunTime TYPE(16) (- 2) = Some s \<and>
      word_of_int s = byte_reverse (word_of_int (- 2) :: u16) \<and>
      bit s (8 * (2 - 1 - 0) + 0) = bit (- 2 :: int) (8 * 0 + 0)"
    using t [THEN conjunct1] h3 by blast
  from h1 h2 h3 a b show ?thesis by (intro conjI)
qed

text \<open>
  C8. On a type of 1, 2, 4 or 8 bytes, no call of \<open>SwapBytes\<close>,
  \<open>FromLittleEndian\<close> or \<open>ToLittleEndian\<close> evaluates a shift by the width of the
  shifted operand or more: \<open>shl\<close> and \<open>shr\<close> have no result exactly for such a
  shift, one step without a result leaves the call without one, and every call has
  a result. For one byte in particular no shift by 8 of an 8-bit operand is
  evaluated.
\<close>

theorem no_undefined_shift:
  assumes "LENGTH('a::len) \<in> {8, 16, 32, 64}" and "length bytes = sizeof TYPE('a)"
  shows "(\<exists>r. SwapBytes p c (v :: 'a word) = Some r) \<and>
         (\<exists>s. SwapBytes_signed p c TYPE('a) x = Some s) \<and>
         (\<exists>r :: 'a word. FromLittleEndian p c bytes = Some r) \<and>
         (\<exists>bs. ToLittleEndian p c v = Some bs) \<and>
         (shl y n = None) = (LENGTH('b::len) \<le> n) \<and>
         (shr (y :: 'b word) n = None) = (LENGTH('b) \<le> n)"
proof -
  have L: "LENGTH('a) = 8 * sizeof TYPE('a)" using assms(1) by (rule supported_width)
  have "(shl y n = None) = (LENGTH('b) \<le> n)" "(shr y n = None) = (LENGTH('b) \<le> n)"
    by (auto simp add: shl_def shr_def)
  then show ?thesis
    by (simp add: SwapBytes_byte_reverse [OF assms(1)] SwapBytes_signed_byte_reverse [OF assms(1)]
        FromLittleEndian_value [OF L assms(2)] ToLittleEndian_bytes [OF L])
qed

text \<open>
  C8 for the one-byte types in a constant expression, where the loops of the codec
  run.
\<close>

theorem no_undefined_shift_witness:
  "LENGTH(8) \<in> {8, 16, 32, 64 :: nat} \<and> length [0x81 :: u8] = sizeof TYPE(8) \<and>
   (\<exists>r. SwapBytes \<lparr>gnuc9_or_clang = True, msc_ver = False, host_order = LittleEndian\<rparr>
      ConstantEvaluation (0x81 :: u8) = Some r) \<and>
   (\<exists>s. SwapBytes_signed \<lparr>gnuc9_or_clang = True, msc_ver = False, host_order = LittleEndian\<rparr>
      ConstantEvaluation TYPE(8) (- 127) = Some s) \<and>
   (\<exists>r :: u8. FromLittleEndian \<lparr>gnuc9_or_clang = True, msc_ver = False, host_order = LittleEndian\<rparr>
      ConstantEvaluation [0x81] = Some r) \<and>
   (\<exists>bs. ToLittleEndian \<lparr>gnuc9_or_clang = True, msc_ver = False, host_order = LittleEndian\<rparr>
      ConstantEvaluation (0x81 :: u8) = Some bs)"
proof -
  have h1: "LENGTH(8) \<in> {8, 16, 32, 64 :: nat}" by simp
  have h2: "length [0x81 :: u8] = sizeof TYPE(8)" by (simp add: sizeof_def)
  note t = no_undefined_shift [OF h1 h2,
      of "\<lparr>gnuc9_or_clang = True, msc_ver = False, host_order = LittleEndian\<rparr>"
         ConstantEvaluation "0x81" "- 127"]
  show ?thesis by (simp only: h1 h2 t simp_thms)
qed

text \<open>
  C9, as the header has it. \<open>cxx17_is_constant_evaluated\<close> is true exactly when the
  compiler is GCC from version 9 or Clang and the call is evaluated as a
  compile-time constant. For every other compiler, MSVC among them, it is false in
  every context. At run time it is false for every compiler.
\<close>

theorem cxx17_is_constant_evaluated_iff:
  "cxx17_is_constant_evaluated p ctx = (gnuc9_or_clang p \<and> ctx = ConstantEvaluation) \<and>
   cxx17_is_constant_evaluated p RunTime = False"
  by (simp add: cxx17_is_constant_evaluated_def builtin_is_constant_evaluated_def)

text \<open>
  C9 as stated, for every toolchain, fails: under MSVC the detector is false in a
  context that is evaluated as a compile-time constant.
\<close>

theorem cxx17_is_constant_evaluated_msvc_counterexample:
  "cxx17_is_constant_evaluated
     \<lparr>gnuc9_or_clang = False, msc_ver = True, host_order = LittleEndian\<rparr> ConstantEvaluation
   \<noteq> builtin_is_constant_evaluated ConstantEvaluation"
  by (simp add: cxx17_is_constant_evaluated_def builtin_is_constant_evaluated_def)

text \<open>
  C10, as the header has it. Each call works in a byte order of its own:
  little-endian when the detector reports constant evaluation, the order of its
  host otherwise. For an unsigned type of \<open>w\<close> bytes, \<open>w\<close> one of 1, 2, 4, 8, and every
  sequence \<open>b\<close> of \<open>w\<close> bytes, \<open>ToLittleEndian (FromLittleEndian b)\<close> is \<open>b\<close> when the two
  calls work in the same byte order, or \<open>w = 1\<close>. In every context
  \<open>ToLittleEndian\<close> is a bijection from the values of the type to the sequences of
  \<open>w\<close> bytes and \<open>FromLittleEndian\<close> one from these sequences to the values; they
  are inverse to each other under the same condition.
\<close>

theorem codec_bytes_round_trip:
  assumes "LENGTH('a::len) \<in> {8, 16, 32, 64}" and "length bytes = sizeof TYPE('a)"
    and "(if cxx17_is_constant_evaluated p c then LittleEndian else host_order p) =
         (if cxx17_is_constant_evaluated q d then LittleEndian else host_order q) \<or>
         sizeof TYPE('a) = 1"
  shows "(FromLittleEndian q d bytes :: 'a word option) \<bind> ToLittleEndian p c = Some bytes \<and>
         ToLittleEndian p c (v :: 'a word) \<bind> FromLittleEndian q d = Some v \<and>
         bij_betw (\<lambda>v :: 'a word. the (ToLittleEndian p c v)) UNIV
           {bs. length bs = sizeof TYPE('a)} \<and>
         bij_betw (\<lambda>bs. the (FromLittleEndian q d bs) :: 'a word)
           {bs. length bs = sizeof TYPE('a)} UNIV"
proof -
  have L: "LENGTH('a) = 8 * sizeof TYPE('a)" using assms(1) by (rule supported_width)
  define o1 where "o1 = (if cxx17_is_constant_evaluated p c then LittleEndian else host_order p)"
  define o2 where "o2 = (if cxx17_is_constant_evaluated q d then LittleEndian else host_order q)"
  have T: "ToLittleEndian p c v = Some (object_bytes o1 v)" for v :: "'a word"
    unfolding o1_def by (rule ToLittleEndian_bytes [OF L])
  have F: "(FromLittleEndian q d bs :: 'a word option) = Some (object_value o2 bs)"
    if "length bs = sizeof TYPE('a)" for bs
    unfolding o2_def using L that by (rule FromLittleEndian_value)
  have G: "(FromLittleEndian p c bs :: 'a word option) = Some (object_value o1 bs)"
    if "length bs = sizeof TYPE('a)" for bs
    unfolding o1_def using L that by (rule FromLittleEndian_value)
  have H: "ToLittleEndian q d v = Some (object_bytes o2 v)" for v :: "'a word"
    unfolding o2_def by (rule ToLittleEndian_bytes [OF L])
  have same: "o1 = o2 \<or> sizeof TYPE('a) = 1" using assms(3) by (simp add: o1_def o2_def)
  have ob: "object_bytes o1 v = object_bytes o2 v" for v :: "'a word"
    using same
  proof
    assume "o1 = o2" then show ?thesis by simp
  next
    assume one: "sizeof TYPE('a) = 1"
    show ?thesis
      using object_bytes_one [OF one, of o1 v] object_bytes_one [OF one, of o2 v] by simp
  qed
  have A: "(FromLittleEndian q d bytes :: 'a word option) \<bind> ToLittleEndian p c = Some bytes"
    by (simp add: F [OF assms(2)] T ob object_bytes_value [OF L assms(2)])
  have A': "ToLittleEndian p c v \<bind> FromLittleEndian q d = Some v"
    by (simp add: T F ob object_value_bytes [OF L])
  have B: "bij_betw (\<lambda>v :: 'a word. the (ToLittleEndian p c v)) UNIV
           {bs. length bs = sizeof TYPE('a)}"
  proof (rule bij_betw_byWitness [where f' = "\<lambda>bs. the (FromLittleEndian p c bs)"])
    show "\<forall>v\<in>UNIV. the (FromLittleEndian p c (the (ToLittleEndian p c v))) = (v :: 'a word)"
      by (simp add: T G object_value_bytes [OF L])
    show "\<forall>bs\<in>{bs. length bs = sizeof TYPE('a)}.
        the (ToLittleEndian p c (the (FromLittleEndian p c bs) :: 'a word)) = bs"
      by (simp add: T G object_bytes_value [OF L])
    show "(\<lambda>v :: 'a word. the (ToLittleEndian p c v)) ` UNIV \<subseteq> {bs. length bs = sizeof TYPE('a)}"
      by (auto simp add: T)
    show "(\<lambda>bs. the (FromLittleEndian p c bs) :: 'a word) ` {bs. length bs = sizeof TYPE('a)} \<subseteq> UNIV"
      by simp
  qed
  have C: "bij_betw (\<lambda>bs. the (FromLittleEndian q d bs) :: 'a word)
           {bs. length bs = sizeof TYPE('a)} UNIV"
  proof (rule bij_betw_byWitness [where f' = "\<lambda>v. the (ToLittleEndian q d v)"])
    show "\<forall>bs\<in>{bs. length bs = sizeof TYPE('a)}.
        the (ToLittleEndian q d (the (FromLittleEndian q d bs) :: 'a word)) = bs"
      by (simp add: H F object_bytes_value [OF L])
    show "\<forall>v\<in>UNIV. the (FromLittleEndian q d (the (ToLittleEndian q d v))) = (v :: 'a word)"
      by (simp add: H F object_value_bytes [OF L])
    show "(\<lambda>bs. the (FromLittleEndian q d bs) :: 'a word) ` {bs. length bs = sizeof TYPE('a)} \<subseteq> UNIV"
      by simp
    show "(\<lambda>v :: 'a word. the (ToLittleEndian q d v)) ` UNIV \<subseteq> {bs. length bs = sizeof TYPE('a)}"
      by (auto simp add: H)
  qed
  from A A' B C show ?thesis by blast
qed

text \<open>
  C10 for a four-byte type on a little-endian host, decoded in a constant expression
  and encoded again at run time.
\<close>

theorem codec_bytes_round_trip_witness:
  "LENGTH(32) \<in> {8, 16, 32, 64 :: nat} \<and> length [0x11, 0x22, 0x33, 0x84 :: u8] = sizeof TYPE(32) \<and>
   (if cxx17_is_constant_evaluated \<lparr>gnuc9_or_clang = True, msc_ver = False, host_order = LittleEndian\<rparr> RunTime then LittleEndian else host_order \<lparr>gnuc9_or_clang = True, msc_ver = False, host_order = LittleEndian\<rparr>) =
   (if cxx17_is_constant_evaluated \<lparr>gnuc9_or_clang = True, msc_ver = False, host_order = LittleEndian\<rparr> ConstantEvaluation then LittleEndian else host_order \<lparr>gnuc9_or_clang = True, msc_ver = False, host_order = LittleEndian\<rparr>) \<and>
   (FromLittleEndian \<lparr>gnuc9_or_clang = True, msc_ver = False, host_order = LittleEndian\<rparr>
       ConstantEvaluation [0x11, 0x22, 0x33, 0x84] :: u32 option)
     \<bind> ToLittleEndian \<lparr>gnuc9_or_clang = True, msc_ver = False, host_order = LittleEndian\<rparr>
       RunTime
     = Some [0x11, 0x22, 0x33, 0x84]"
proof -
  have h1: "LENGTH(32) \<in> {8, 16, 32, 64 :: nat}" by simp
  have h2: "length [0x11, 0x22, 0x33, 0x84 :: u8] = sizeof TYPE(32)" by (simp add: sizeof_def)
  have h3: "(if cxx17_is_constant_evaluated \<lparr>gnuc9_or_clang = True, msc_ver = False, host_order = LittleEndian\<rparr> RunTime then LittleEndian else host_order \<lparr>gnuc9_or_clang = True, msc_ver = False, host_order = LittleEndian\<rparr>) =
   (if cxx17_is_constant_evaluated \<lparr>gnuc9_or_clang = True, msc_ver = False, host_order = LittleEndian\<rparr> ConstantEvaluation then LittleEndian else host_order \<lparr>gnuc9_or_clang = True, msc_ver = False, host_order = LittleEndian\<rparr>)"
    by (simp add: cxx17_is_constant_evaluated_def builtin_is_constant_evaluated_def)
  note t = codec_bytes_round_trip [OF h1 h2 disjI1 [OF h3], THEN conjunct1]
  from h1 h2 h3 t show ?thesis by (intro conjI)
qed

text \<open>
  C10 as stated, for any two calls, fails: on a big-endian host two bytes that are
  decoded in a constant expression and encoded again at run time come back
  exchanged, \<open>[0x01, 0x00]\<close> as \<open>[0x00, 0x01]\<close>.
\<close>

theorem codec_bytes_round_trip_mixed_counterexample:
  "(FromLittleEndian \<lparr>gnuc9_or_clang = True, msc_ver = False, host_order = BigEndian\<rparr> ConstantEvaluation [0x01, 0x00] :: u16 option)
     \<bind> ToLittleEndian \<lparr>gnuc9_or_clang = True, msc_ver = False, host_order = BigEndian\<rparr> RunTime = Some [0x00, 0x01] \<and>
   (FromLittleEndian \<lparr>gnuc9_or_clang = True, msc_ver = False, host_order = BigEndian\<rparr> ConstantEvaluation [0x01, 0x00] :: u16 option)
     \<bind> ToLittleEndian \<lparr>gnuc9_or_clang = True, msc_ver = False, host_order = BigEndian\<rparr> RunTime \<noteq> Some [0x01, 0x00]"
  by (simp add: ToLittleEndian_def FromLittleEndian_def cxx17_is_constant_evaluated_def
      builtin_is_constant_evaluated_def memcpy_def object_bytes_def sizeof_def upt_rec
      FromLittleEndian_loop.simps span_at_def shl_def sizeof_int_def)

end
